theory Spec2Isabelle
  imports Main "HOL-Library.Word" "HOL-Library.Sublist"
begin

unbundle bit_operations_syntax

section \<open>takiyasha/utils.py: data\<close>

text \<open>
  A Python \<open>bytes\<close> value is a list of 8-bit words; a Python \<open>str\<close> is a
  \<open>string\<close>. Every string of the module is ASCII. The only exception the module
  raises is \<open>ValueError\<close>, carrying its message.
\<close>

type_synonym byte = "8 word"
type_synonym bytes = "byte list"

datatype error = ValueError string

text \<open>
  The dictionaries of the module are iterated with \<open>.items()\<close>, so their insertion
  order matters: each is an association list in the order of the source.
\<close>

definition AUDIO_FILE_HEADER_FORMAT_MAP :: "(bytes \<times> string) list" where
  "AUDIO_FILE_HEADER_FORMAT_MAP =
    [([0x66, 0x4C, 0x61, 0x43], ''flac''),
     ([0x49, 0x44, 0x33], ''mp3''),
     ([0x4F, 0x67, 0x67, 0x53], ''ogg''),
     ([0x66, 0x74, 0x79, 0x70], ''m4a''),
     ([0x30, 0x26, 0xB2, 0x75, 0x8E, 0x66, 0xCF, 0x11,
       0xA6, 0xD9, 0x00, 0xAA, 0x00, 0x62, 0xCE, 0x6C], ''wma''),
     ([0x52, 0x49, 0x46, 0x46], ''wav''),
     ([0xFF, 0xF1], ''aac''),
     ([0x46, 0x52, 0x4D, 0x38], ''dff''),
     ([0x4D, 0x41, 0x43, 0x20], ''ape'')]"

definition IMAGE_FILE_HEADER_MIME_MAP :: "(bytes \<times> string) list" where
  "IMAGE_FILE_HEADER_MIME_MAP =
    [([0x89, 0x50, 0x4E, 0x47, 0x0D, 0x0A, 0x1A, 0x0A], ''image/png''),
     ([0xFF, 0xD8, 0xFF], ''image/jpeg''),
     ([0x42, 0x4D], ''image/bmp'')]"

text \<open>
  The comprehension \<open>{v: k for k, v in m.items()}\<close> stores the pairs one after the
  other, a later pair replacing an earlier one with the same key.
\<close>

definition invert_items :: "('k \<times> 'v) list \<Rightarrow> ('v \<rightharpoonup> 'k)" where
  "invert_items items = foldl (\<lambda>m (k, v). m(v \<mapsto> k)) Map.empty items"

definition AUDIO_FILE_FORMAT_HEADER_MAP :: "string \<rightharpoonup> bytes" where
  "AUDIO_FILE_FORMAT_HEADER_MAP = invert_items AUDIO_FILE_HEADER_FORMAT_MAP"

definition IMAGE_FILE_MIME_HEADER_MAP :: "string \<rightharpoonup> bytes" where
  "IMAGE_FILE_MIME_HEADER_MAP = invert_items IMAGE_FILE_HEADER_MIME_MAP"

section \<open>Sniffing a format from the first bytes\<close>

definition startswith :: "'a list \<Rightarrow> 'a list \<Rightarrow> bool" where
  "startswith data header = prefix header data"

text \<open>
  The loop \<open>for header, fmt in items: if data.startswith(header): return fmt\<close>;
  falling off its end returns \<open>None\<close>.
\<close>

fun first_header_match :: "(bytes \<times> string) list \<Rightarrow> bytes \<Rightarrow> string option" where
  "first_header_match [] data = None"
| "first_header_match ((header, fmt) # items) data =
     (if startswith data header then Some fmt else first_header_match items data)"

definition get_audio_format :: "bytes \<Rightarrow> string option" where
  "get_audio_format data = first_header_match AUDIO_FILE_HEADER_FORMAT_MAP data"

definition get_image_mime :: "bytes \<Rightarrow> string option" where
  "get_image_mime data = first_header_match IMAGE_FILE_HEADER_MIME_MAP data"

text \<open>\<open>str.removeprefix\<close>: the prefix is dropped once when the string starts with it.\<close>

definition removeprefix :: "string \<Rightarrow> string \<Rightarrow> string" where
  "removeprefix s p = (if startswith s p then drop (length p) s else s)"

definition get_possible_audio_header :: "string \<Rightarrow> bytes option" where
  "get_possible_audio_header fmt = AUDIO_FILE_FORMAT_HEADER_MAP (removeprefix fmt ''.'')"

definition get_possible_image_header :: "string \<Rightarrow> bytes option" where
  "get_possible_image_header fmt = IMAGE_FILE_MIME_HEADER_MAP (removeprefix fmt ''.'')"

section \<open>File names\<close>

text \<open>
  \<open>get_file_ext\<close> is \<open>os.path.splitext(name)[1]\<close>. The standard library's
  \<open>splitext\<close> is modelled for POSIX paths (separator \<open>/\<close>, no alternative
  separator, extension separator \<open>.\<close>), following \<open>genericpath._splitext\<close>
  line by line: \<open>rfind\<close> gives the last index of a character or \<open>-1\<close>, and
  the loop skips the dots that lead the last path component.
\<close>

fun rfind :: "string \<Rightarrow> char \<Rightarrow> int" where
  "rfind [] c = -1"
| "rfind (x # xs) c =
     (let r = rfind xs c in if 0 \<le> r then r + 1 else if x = c then 0 else -1)"

function splitext_loop :: "string \<Rightarrow> nat \<Rightarrow> nat \<Rightarrow> string \<times> string" where
  "splitext_loop p filenameIndex dotIndex =
     (if filenameIndex < dotIndex then
        (if take 1 (drop filenameIndex p) \<noteq> ''.'' then (take dotIndex p, drop dotIndex p)
         else splitext_loop p (filenameIndex + 1) dotIndex)
      else (p, []))"
  by pat_completeness auto
termination
  by (relation "measure (\<lambda>(p, filenameIndex, dotIndex). dotIndex - filenameIndex)") auto

definition splitext :: "string \<Rightarrow> string \<times> string" where
  "splitext p =
     (let sepIndex = rfind p CHR ''/'';
          dotIndex = rfind p CHR ''.''
      in if dotIndex > sepIndex then splitext_loop p (nat (sepIndex + 1)) (nat dotIndex)
         else (p, []))"

definition get_file_ext :: "string \<Rightarrow> string" where
  "get_file_ext name = snd (splitext name)"

text \<open>
  For comparison with \<open>get_file_ext\<close>, the extension as the specification words it:
  the suffix of the name that starts at its last dot, empty when the name has no dot. The
  stem is what lies between that dot and the \<open>/\<close> before it, or the start of the name.
\<close>

definition last_dot_suffix :: "string \<Rightarrow> string" where
  "last_dot_suffix name =
     (if CHR ''.'' \<in> set name
      then CHR ''.'' # rev (takeWhile (\<lambda>c. c \<noteq> CHR ''.'') (rev name))
      else [])"

definition stem_before_last_dot :: "string \<Rightarrow> string" where
  "stem_before_last_dot name =
     rev (takeWhile (\<lambda>c. c \<noteq> CHR ''/'')
            (drop 1 (dropWhile (\<lambda>c. c \<noteq> CHR ''.'') (rev name))))"

text \<open>
  \<open>get_encryption_format\<close> calls \<open>fnmatch(name, pattern)\<close> of the standard
  library, modelled here for POSIX, where \<open>normcase\<close> changes nothing: the pattern is
  translated from left to right into tokens, \<open>*\<close> for any run of characters,
  \<open>?\<close> for one character, \<open>[seq]\<close> and \<open>[!seq]\<close> for a character class (a
  \<open>]\<close> that comes first in the class is an ordinary member, \<open>a-z\<close> is a range, a
  \<open>[\<close> that is never closed stands for itself), and the tokens must match the whole
  name. The patterns of the module use \<open>*\<close>, ordinary characters and classes
  without ranges or negation.
\<close>

datatype glob_item = Single char | CharRange char char

datatype glob_token = Star | AnyChar | Literal char | CharClass bool "glob_item list"

fun class_items :: "string \<Rightarrow> glob_item list" where
  "class_items (lo # m # hi # rest) =
     (if m = CHR ''-'' then CharRange lo hi # class_items rest
      else Single lo # class_items (m # hi # rest))"
| "class_items (c # rest) = Single c # class_items rest"
| "class_items [] = []"

definition char_class :: "string \<Rightarrow> glob_token" where
  "char_class stuff =
     (if startswith stuff ''!'' then CharClass True (class_items (drop 1 stuff))
      else CharClass False (class_items stuff))"

definition class_end :: "string \<Rightarrow> nat option" where
  "class_end pat =
     (let j0 = (if startswith pat ''!'' then 1 else 0);
          j1 = (if startswith (drop j0 pat) '']'' then j0 + 1 else j0);
          j = j1 + length (takeWhile (\<lambda>c. c \<noteq> CHR '']'') (drop j1 pat))
      in if j \<ge> length pat then None else Some j)"

function translate :: "string \<Rightarrow> glob_token list" where
  "translate [] = []"
| "translate (c # pat) =
     (if c = CHR ''*'' then Star # translate pat
      else if c = CHR ''?'' then AnyChar # translate pat
      else if c = CHR ''['' then
        (case class_end pat of
           None \<Rightarrow> Literal CHR ''['' # translate pat
         | Some j \<Rightarrow> char_class (take j pat) # translate (drop (j + 1) pat))
      else Literal c # translate pat)"
  by pat_completeness auto
termination
  by (relation "measure length") auto

fun item_matches :: "glob_item \<Rightarrow> char \<Rightarrow> bool" where
  "item_matches (Single x) c = (c = x)"
| "item_matches (CharRange lo hi) c =
     ((of_char lo :: nat) \<le> of_char c \<and> (of_char c :: nat) \<le> of_char hi)"

fun token_matches :: "glob_token \<Rightarrow> char \<Rightarrow> bool" where
  "token_matches (Literal x) c = (c = x)"
| "token_matches (CharClass negated items) c = (list_ex (\<lambda>i. item_matches i c) items \<noteq> negated)"
| "token_matches _ c = True"

fun tokens_match :: "glob_token list \<Rightarrow> string \<Rightarrow> bool" where
  "tokens_match [] name = (name = [])"
| "tokens_match (Star # ts) [] = tokens_match ts []"
| "tokens_match (Star # ts) (c # cs) = (tokens_match ts (c # cs) \<or> tokens_match (Star # ts) cs)"
| "tokens_match (t # ts) [] = False"
| "tokens_match (t # ts) (c # cs) = (token_matches t c \<and> tokens_match ts cs)"

definition normcase :: "string \<Rightarrow> string" where
  "normcase s = s"

definition fnmatch :: "string \<Rightarrow> string \<Rightarrow> bool" where
  "fnmatch name pat = tokens_match (translate (normcase pat)) (normcase name)"

definition SUPPORTED_FORMATS_PATTERNS :: "(string \<times> string list) list" where
  "SUPPORTED_FORMATS_PATTERNS =
    [(''ncm'', [''*.ncm'']),
     (''qmc'', [''*.qmc[023468]'', ''*.qmcflac'', ''*.qmcogg'',
               ''*.tkm'',
               ''*.mflac'', ''*.mflac[0]'', ''*.mgg'', ''*.mgg[01l]'',
               ''*.bkcmp3'', ''*.bkcm4a'', ''*.bkcflac'', ''*.bkcwav'', ''*.bkcape'',
               ''*.bkcogg'', ''*.bkcwma''])]"

text \<open>The inner loop over the patterns of one scheme, and the outer loop over the schemes.\<close>

fun any_pattern_matches :: "string \<Rightarrow> string list \<Rightarrow> bool" where
  "any_pattern_matches name [] = False"
| "any_pattern_matches name (pattern # patterns) =
     (if fnmatch name pattern then True else any_pattern_matches name patterns)"

fun first_scheme_match :: "(string \<times> string list) list \<Rightarrow> string \<Rightarrow> string option" where
  "first_scheme_match [] name = None"
| "first_scheme_match ((enctype, patterns) # schemes) name =
     (if any_pattern_matches name patterns then Some enctype
      else first_scheme_match schemes name)"

definition get_encryption_format :: "string \<Rightarrow> string option" where
  "get_encryption_format name = first_scheme_match SUPPORTED_FORMATS_PATTERNS name"

section \<open>File objects\<close>

text \<open>
  A file object is whatever the caller passes: it may or may not have a \<open>read\<close>, a
  \<open>seek\<close> and a \<open>write\<close> attribute (\<open>None\<close> when \<open>hasattr\<close> is false), and
  calling one either returns a value or raises, and may change the state \<open>'s\<close> of the
  object either way. \<open>str_of\<close> is the text that \<open>{fileobj}\<close> formats to.
\<close>

datatype pyobj = PyBytes bytes | PyStr string | PyNone

datatype 'a outcome = Returned 'a | Raised

record 's fileobj =
  read_attr :: "(int \<Rightarrow> 's \<Rightarrow> pyobj outcome \<times> 's) option"
  seek_attr :: "(int \<Rightarrow> int \<Rightarrow> 's \<Rightarrow> int outcome \<times> 's) option"
  write_attr :: "(bytes \<Rightarrow> 's \<Rightarrow> int outcome \<times> 's) option"
  str_of :: string

definition SEEK_END :: int where
  "SEEK_END = 2"

fun isinstance_bytes :: "pyobj \<Rightarrow> bool" where
  "isinstance_bytes (PyBytes b) = True"
| "isinstance_bytes _ = False"

text \<open>
  The three blocks of \<open>raise_while_not_fileobj\<close>. A call of a missing attribute raises
  \<open>AttributeError\<close>, which \<open>except Exception\<close> catches like any exception of the
  call itself; \<open>hasattr\<close> then chooses the message.
\<close>

definition check_readable :: "'s fileobj \<Rightarrow> 's \<Rightarrow> (error + unit) \<times> 's" where
  "check_readable fileobj s =
     (case read_attr fileobj of
        None \<Rightarrow> (Inl (ValueError (str_of fileobj @ '' not a valid file object'')), s)
      | Some read \<Rightarrow>
          (case read 0 s of
             (Raised, s') \<Rightarrow>
               (Inl (ValueError (''cannot read from file object '' @ str_of fileobj)), s')
           | (Returned data, s') \<Rightarrow>
               if \<not> isinstance_bytes data
               then (Inl (ValueError (''file object '' @ str_of fileobj
                                       @ '' not opened in binary mode'')), s')
               else (Inr (), s')))"

definition check_seekable :: "'s fileobj \<Rightarrow> 's \<Rightarrow> (error + unit) \<times> 's" where
  "check_seekable fileobj s =
     (case seek_attr fileobj of
        None \<Rightarrow> (Inl (ValueError (str_of fileobj @ '' not a valid file object'')), s)
      | Some seek \<Rightarrow>
          (case seek 0 SEEK_END s of
             (Raised, s') \<Rightarrow>
               (Inl (ValueError (''cannot seek in file object '' @ str_of fileobj)), s')
           | (Returned _, s') \<Rightarrow> (Inr (), s')))"

definition check_writable :: "'s fileobj \<Rightarrow> 's \<Rightarrow> (error + unit) \<times> 's" where
  "check_writable fileobj s =
     (case write_attr fileobj of
        None \<Rightarrow> (Inl (ValueError (str_of fileobj @ '' not a valid file object'')), s)
      | Some write \<Rightarrow>
          (case write [] s of
             (Raised, s') \<Rightarrow>
               (Inl (ValueError (''cannot write to file object '' @ str_of fileobj)), s')
           | (Returned _, s') \<Rightarrow> (Inr (), s')))"

definition raise_while_not_fileobj ::
  "'s fileobj \<Rightarrow> 's \<Rightarrow> bool \<Rightarrow> bool \<Rightarrow> bool \<Rightarrow> (error + unit) \<times> 's" where
  "raise_while_not_fileobj fileobj s readable seekable writable =
     (case (if readable then check_readable fileobj s else (Inr (), s)) of
        (Inl e, s1) \<Rightarrow> (Inl e, s1)
      | (Inr _, s1) \<Rightarrow>
          (case (if seekable then check_seekable fileobj s1 else (Inr (), s1)) of
             (Inl e, s2) \<Rightarrow> (Inl e, s2)
           | (Inr _, s2) \<Rightarrow>
               (if writable then check_writable fileobj s2 else (Inr (), s2))))"





text \<open>
  An in-memory binary stream in the manner of \<open>io.BytesIO\<close>: a buffer and a cursor.
  \<open>read\<close> returns the bytes from the cursor on and moves it past them, \<open>seek\<close>
  moves the cursor relative to the start (0), the cursor (1) or the end (2), \<open>write\<close>
  overwrites at the cursor, padding with zero bytes when the cursor is past the end, and
  writes nothing for an empty argument.
\<close>

record bytesio =
  buf :: bytes
  pos :: nat

definition bytesio_read :: "int \<Rightarrow> bytesio \<Rightarrow> pyobj outcome \<times> bytesio" where
  "bytesio_read n s =
     (let avail = drop (pos s) (buf s);
          data = (if n < 0 then avail else take (nat n) avail)
      in (Returned (PyBytes data), s\<lparr>pos := pos s + length data\<rparr>))"

definition bytesio_seek :: "int \<Rightarrow> int \<Rightarrow> bytesio \<Rightarrow> int outcome \<times> bytesio" where
  "bytesio_seek offset whence s =
     (if whence = 0 then
        (if offset < 0 then (Raised, s) else (Returned offset, s\<lparr>pos := nat offset\<rparr>))
      else if whence = 1 then
        (let p = max 0 (int (pos s) + offset) in (Returned p, s\<lparr>pos := nat p\<rparr>))
      else if whence = 2 then
        (let p = max 0 (int (length (buf s)) + offset) in (Returned p, s\<lparr>pos := nat p\<rparr>))
      else (Raised, s))"

definition bytesio_write :: "bytes \<Rightarrow> bytesio \<Rightarrow> int outcome \<times> bytesio" where
  "bytesio_write b s =
     (if b = [] then (Returned 0, s)
      else
        (let padded = buf s @ replicate (pos s - length (buf s)) 0
         in (Returned (int (length b)),
             s\<lparr>buf := take (pos s) padded @ b @ drop (pos s + length b) padded,
               pos := pos s + length b\<rparr>)))"

definition BytesIO :: "bytesio fileobj" where
  "BytesIO = \<lparr>read_attr = Some bytesio_read, seek_attr = Some bytesio_seek,
              write_attr = Some bytesio_write, str_of = ''<_io.BytesIO object>''\<rparr>"




section \<open>Byte-wise exclusive or\<close>

definition xor_bytestrings :: "bytes \<Rightarrow> bytes \<Rightarrow> error + bytes" where
  "xor_bytestrings term1 term2 =
     (if length term1 \<noteq> length term2
      then Inl (ValueError ''Only byte strings of equal length can be xored'')
      else Inr (map (\<lambda>(b1, b2). b1 XOR b2) (zip term1 term2)))"

section \<open>Properties of the sniffers and the reverse lookup\<close>

lemma first_header_match_None:
  "first_header_match items data = None \<longleftrightarrow> (\<forall>(h, l) \<in> set items. \<not> startswith data h)"
  by (induction items data rule: first_header_match.induct) auto

lemma first_header_match_Some:
  "first_header_match items data = Some l \<Longrightarrow> \<exists>h. (h, l) \<in> set items \<and> startswith data h"
  by (induction items data rule: first_header_match.induct) (auto split: if_splits)

lemma audio_entries_identified:
  "list_all (\<lambda>(h, l). get_audio_format (h @ s) = Some l) AUDIO_FILE_HEADER_FORMAT_MAP"
  by (simp add: get_audio_format_def AUDIO_FILE_HEADER_FORMAT_MAP_def startswith_def)

lemma image_entries_identified:
  "list_all (\<lambda>(h, l). get_image_mime (h @ s) = Some l) IMAGE_FILE_HEADER_MIME_MAP"
  by (simp add: get_image_mime_def IMAGE_FILE_HEADER_MIME_MAP_def startswith_def)

text \<open>
  C1. For every (header, label) entry of the audio registry and of the image registry and
  for every byte string appended to the header, the sniffer of that registry returns the
  entry's label.
\<close>

theorem C1_registered_header_identified:
  "(\<forall>(header, fmt) \<in> set AUDIO_FILE_HEADER_FORMAT_MAP.
      get_audio_format (header @ rest) = Some fmt) \<and>
   (\<forall>(header, mime) \<in> set IMAGE_FILE_HEADER_MIME_MAP.
      get_image_mime (header @ rest) = Some mime)"
  using audio_entries_identified [of rest] image_entries_identified [of rest]
  by (simp add: list_all_iff)

theorem C1_witness:
  "([0x66, 0x4C, 0x61, 0x43], ''flac'') \<in> set AUDIO_FILE_HEADER_FORMAT_MAP \<and>
   get_audio_format ([0x66, 0x4C, 0x61, 0x43] @ [0x00, 0x00, 0x00, 0x22]) = Some ''flac'' \<and>
   ([0xFF, 0xD8, 0xFF], ''image/jpeg'') \<in> set IMAGE_FILE_HEADER_MIME_MAP \<and>
   get_image_mime ([0xFF, 0xD8, 0xFF] @ [0x00, 0x00, 0x00, 0x22]) = Some ''image/jpeg''"
proof -
  have a: "([0x66, 0x4C, 0x61, 0x43], ''flac'') \<in> set AUDIO_FILE_HEADER_FORMAT_MAP"
    by (simp add: AUDIO_FILE_HEADER_FORMAT_MAP_def)
  have i: "([0xFF, 0xD8, 0xFF], ''image/jpeg'') \<in> set IMAGE_FILE_HEADER_MIME_MAP"
    by (simp add: IMAGE_FILE_HEADER_MIME_MAP_def)
  note C1_registered_header_identified [of "[0x00, 0x00, 0x00, 0x22]"]
  with a i show ?thesis by blast
qed

lemma audio_roundtrip:
  "list_all (\<lambda>(h, l). get_possible_audio_header l = Some h \<and>
      get_possible_audio_header (''.'' @ l) = Some h) AUDIO_FILE_HEADER_FORMAT_MAP"
  by (simp add: get_possible_audio_header_def AUDIO_FILE_FORMAT_HEADER_MAP_def invert_items_def
      AUDIO_FILE_HEADER_FORMAT_MAP_def removeprefix_def startswith_def)

lemma image_roundtrip:
  "list_all (\<lambda>(h, l). get_possible_image_header l = Some h \<and>
      get_possible_image_header (''.'' @ l) = Some h) IMAGE_FILE_HEADER_MIME_MAP"
  by (simp add: get_possible_image_header_def IMAGE_FILE_MIME_HEADER_MAP_def invert_items_def
      IMAGE_FILE_HEADER_MIME_MAP_def removeprefix_def startswith_def)

text \<open>
  C2. The labels of the registries are the controlled vocabulary; for every label of it
  the reverse lookup returns the magic bytes registered for the label, and the label with
  one dot in front of it is looked up to the same result.
\<close>

theorem C2_reverse_lookup:
  "map snd AUDIO_FILE_HEADER_FORMAT_MAP =
     [''flac'', ''mp3'', ''ogg'', ''m4a'', ''wma'', ''wav'', ''aac'', ''dff'', ''ape''] \<and>
   map snd IMAGE_FILE_HEADER_MIME_MAP = [''image/png'', ''image/jpeg'', ''image/bmp''] \<and>
   (\<forall>(header, fmt) \<in> set AUDIO_FILE_HEADER_FORMAT_MAP.
      get_possible_audio_header fmt = Some header \<and>
      get_possible_audio_header (''.'' @ fmt) = get_possible_audio_header fmt) \<and>
   (\<forall>(header, mime) \<in> set IMAGE_FILE_HEADER_MIME_MAP.
      get_possible_image_header mime = Some header \<and>
      get_possible_image_header (''.'' @ mime) = get_possible_image_header mime)"
proof -
  have "map snd AUDIO_FILE_HEADER_FORMAT_MAP =
     [''flac'', ''mp3'', ''ogg'', ''m4a'', ''wma'', ''wav'', ''aac'', ''dff'', ''ape'']"
    by (simp add: AUDIO_FILE_HEADER_FORMAT_MAP_def)
  moreover have "map snd IMAGE_FILE_HEADER_MIME_MAP = [''image/png'', ''image/jpeg'', ''image/bmp'']"
    by (simp add: IMAGE_FILE_HEADER_MIME_MAP_def)
  moreover have "\<forall>(header, fmt) \<in> set AUDIO_FILE_HEADER_FORMAT_MAP.
      get_possible_audio_header fmt = Some header \<and>
      get_possible_audio_header (''.'' @ fmt) = get_possible_audio_header fmt"
    using audio_roundtrip by (auto simp: list_all_iff)
  moreover have "\<forall>(header, mime) \<in> set IMAGE_FILE_HEADER_MIME_MAP.
      get_possible_image_header mime = Some header \<and>
      get_possible_image_header (''.'' @ mime) = get_possible_image_header mime"
    using image_roundtrip by (auto simp: list_all_iff)
  ultimately show ?thesis by blast
qed

theorem C2_witness:
  "([0x66, 0x4C, 0x61, 0x43], ''flac'') \<in> set AUDIO_FILE_HEADER_FORMAT_MAP \<and>
   get_possible_audio_header ''flac'' = Some [0x66, 0x4C, 0x61, 0x43] \<and>
   get_possible_audio_header ''.flac'' = Some [0x66, 0x4C, 0x61, 0x43] \<and>
   ([0x42, 0x4D], ''image/bmp'') \<in> set IMAGE_FILE_HEADER_MIME_MAP \<and>
   get_possible_image_header ''image/bmp'' = Some [0x42, 0x4D] \<and>
   get_possible_image_header ''.image/bmp'' = Some [0x42, 0x4D]"
proof -
  have a: "([0x66, 0x4C, 0x61, 0x43], ''flac'') \<in> set AUDIO_FILE_HEADER_FORMAT_MAP"
    by (simp add: AUDIO_FILE_HEADER_FORMAT_MAP_def)
  have i: "([0x42, 0x4D], ''image/bmp'') \<in> set IMAGE_FILE_HEADER_MIME_MAP"
    by (simp add: IMAGE_FILE_HEADER_MIME_MAP_def)
  from a C2_reverse_lookup
  have "get_possible_audio_header ''flac'' = Some [0x66, 0x4C, 0x61, 0x43] \<and>
        get_possible_audio_header (''.'' @ ''flac'') = get_possible_audio_header ''flac''"
    by blast
  moreover from i C2_reverse_lookup
  have "get_possible_image_header ''image/bmp'' = Some [0x42, 0x4D] \<and>
        get_possible_image_header (''.'' @ ''image/bmp'') = get_possible_image_header ''image/bmp''"
    by blast
  ultimately show ?thesis using a i by simp
qed

text \<open>
  C9. Whenever a sniffer returns a label for some data, the reverse lookup of that label
  returns a header, and the data starts with that header.
\<close>

theorem C9_sniffed_label_has_header:
  "(get_audio_format data = Some fmt \<longrightarrow>
      (\<exists>header. get_possible_audio_header fmt = Some header \<and> startswith data header)) \<and>
   (get_image_mime data = Some fmt \<longrightarrow>
      (\<exists>header. get_possible_image_header fmt = Some header \<and> startswith data header))"
proof (intro conjI impI)
  assume "get_audio_format data = Some fmt"
  then obtain h where h: "(h, fmt) \<in> set AUDIO_FILE_HEADER_FORMAT_MAP" "startswith data h"
    unfolding get_audio_format_def by (blast dest: first_header_match_Some)
  from h(1) audio_roundtrip have "get_possible_audio_header fmt = Some h"
    by (auto simp: list_all_iff)
  with h(2) show "\<exists>header. get_possible_audio_header fmt = Some header \<and> startswith data header"
    by blast
next
  assume "get_image_mime data = Some fmt"
  then obtain h where h: "(h, fmt) \<in> set IMAGE_FILE_HEADER_MIME_MAP" "startswith data h"
    unfolding get_image_mime_def by (blast dest: first_header_match_Some)
  from h(1) image_roundtrip have "get_possible_image_header fmt = Some h"
    by (auto simp: list_all_iff)
  with h(2) show "\<exists>header. get_possible_image_header fmt = Some header \<and> startswith data header"
    by blast
qed



theorem C9_witness:
  "get_audio_format [0x66, 0x4C, 0x61, 0x43, 0x00, 0x00] = Some ''flac'' \<and>
   (\<exists>header. get_possible_audio_header ''flac'' = Some header \<and>
      startswith [0x66, 0x4C, 0x61, 0x43, 0x00, 0x00] header) \<and>
   get_image_mime [0x42, 0x4D, 0x36] = Some ''image/bmp'' \<and>
   (\<exists>header. get_possible_image_header ''image/bmp'' = Some header \<and>
      startswith [0x42, 0x4D, 0x36] header)"
proof -
  have a: "get_audio_format [0x66, 0x4C, 0x61, 0x43, 0x00, 0x00] = Some ''flac''"
    by (simp add: get_audio_format_def AUDIO_FILE_HEADER_FORMAT_MAP_def startswith_def)
  have i: "get_image_mime [0x42, 0x4D, 0x36] = Some ''image/bmp''"
    by (simp add: get_image_mime_def IMAGE_FILE_HEADER_MIME_MAP_def startswith_def)
  from a C9_sniffed_label_has_header [of "[0x66, 0x4C, 0x61, 0x43, 0x00, 0x00]" "''flac''"]
  have "\<exists>header. get_possible_audio_header ''flac'' = Some header \<and>
      startswith [0x66, 0x4C, 0x61, 0x43, 0x00, 0x00] header" by blast
  moreover from i C9_sniffed_label_has_header [of "[0x42, 0x4D, 0x36]" "''image/bmp''"]
  have "\<exists>header. get_possible_image_header ''image/bmp'' = Some header \<and>
      startswith [0x42, 0x4D, 0x36] header" by blast
  ultimately show ?thesis using a i by blast
qed

lemma startswith_length: "startswith data header \<Longrightarrow> length header \<le> length data"
  by (simp add: startswith_def prefix_length_le)

text \<open>
  C6. The sniffers return \<open>None\<close>, a value and not an exception, whenever the data
  starts with no registered header; so they do for data shorter than every registered
  header and for the empty byte string.
\<close>

theorem C6_no_match_is_None:
  "((\<forall>(header, fmt) \<in> set AUDIO_FILE_HEADER_FORMAT_MAP. \<not> startswith data header)
      \<longrightarrow> get_audio_format data = None) \<and>
   ((\<forall>(header, mime) \<in> set IMAGE_FILE_HEADER_MIME_MAP. \<not> startswith data header)
      \<longrightarrow> get_image_mime data = None) \<and>
   ((\<forall>(header, fmt) \<in> set AUDIO_FILE_HEADER_FORMAT_MAP. length data < length header)
      \<longrightarrow> get_audio_format data = None) \<and>
   ((\<forall>(header, mime) \<in> set IMAGE_FILE_HEADER_MIME_MAP. length data < length header)
      \<longrightarrow> get_image_mime data = None) \<and>
   get_audio_format [] = None \<and> get_image_mime [] = None"
proof -
  have short: "first_header_match items d = None"
    if "\<forall>(header, l) \<in> set items. length d < length header" for items d
    unfolding first_header_match_None using that startswith_length by fastforce
  have "get_audio_format [] = None"
    by (simp add: get_audio_format_def AUDIO_FILE_HEADER_FORMAT_MAP_def startswith_def)
  moreover have "get_image_mime [] = None"
    by (simp add: get_image_mime_def IMAGE_FILE_HEADER_MIME_MAP_def startswith_def)
  ultimately show ?thesis
    unfolding get_audio_format_def get_image_mime_def
    using short by (simp add: first_header_match_None)
qed

theorem C6_witness:
  "list_all (\<lambda>(header, fmt). \<not> startswith [0x66, 0x4C, 0x61] header)
     AUDIO_FILE_HEADER_FORMAT_MAP \<and>
   get_audio_format [0x66, 0x4C, 0x61] = None \<and>
   list_all (\<lambda>(header, mime). length [0x42 :: byte] < length header)
     IMAGE_FILE_HEADER_MIME_MAP \<and>
   get_image_mime [0x42] = None"
proof -
  have a: "list_all (\<lambda>(header, fmt). \<not> startswith [0x66, 0x4C, 0x61] header)
     AUDIO_FILE_HEADER_FORMAT_MAP"
    by (simp add: AUDIO_FILE_HEADER_FORMAT_MAP_def startswith_def)
  have i: "list_all (\<lambda>(header, mime). length [0x42 :: byte] < length header)
     IMAGE_FILE_HEADER_MIME_MAP"
    by (simp add: IMAGE_FILE_HEADER_MIME_MAP_def)
  from a C6_no_match_is_None [of "[0x66, 0x4C, 0x61]"]
  have "get_audio_format [0x66, 0x4C, 0x61] = None"
    unfolding list_all_iff by blast
  moreover from i C6_no_match_is_None [of "[0x42]"]
  have "get_image_mime [0x42] = None"
    unfolding list_all_iff by blast
  ultimately show ?thesis using a i by blast
qed

section \<open>Properties of the exclusive or\<close>

lemma xor_zip_self: "map (\<lambda>(b1, b2). b1 XOR b2) (zip a a) = replicate (length a) (0 :: byte)"
  by (induction a) auto

lemma xor_zip_cancel:
  "length a = length b \<Longrightarrow>
     map (\<lambda>(b1, b2). b1 XOR b2) (zip (map (\<lambda>(b1, b2). b1 XOR b2) (zip a b)) b) = (a :: bytes)"
  by (induction a b rule: list_induct2) (auto simp: xor.assoc)

lemma xor_zip_commute:
  "map (\<lambda>(b1, b2). b1 XOR b2) (zip a b) = map (\<lambda>(b1, b2). b1 XOR b2) (zip b (a :: bytes))"
proof (induction a arbitrary: b)
  case Nil
  then show ?case by simp
next
  case (Cons x a)
  then show ?case by (cases b) (auto simp: xor.commute)
qed

text \<open>
  C4. \<open>xor_bytestrings\<close> raises its \<open>ValueError\<close> when the lengths differ, and
  only then; for equal lengths it returns a byte string of that length whose byte at each
  index is the exclusive or of the operands' bytes there. A byte string xored with itself
  is all zero.
\<close>

theorem C4_xor_bytestrings:
  "(length a \<noteq> length b \<longrightarrow>
      xor_bytestrings a b = Inl (ValueError ''Only byte strings of equal length can be xored'')) \<and>
   (length a = length b \<longrightarrow>
      (\<exists>r. xor_bytestrings a b = Inr r \<and> length r = length a \<and>
           (\<forall>i < length a. r ! i = (a ! i) XOR (b ! i)))) \<and>
   xor_bytestrings a a = Inr (replicate (length a) 0)"
  by (simp add: xor_bytestrings_def xor_zip_self)

theorem C4_witness:
  "length [0x0F, 0xF0, 0xAA :: byte] = length [0xFF, 0xFF, 0x55 :: byte] \<and>
   xor_bytestrings [0x0F, 0xF0, 0xAA] [0xFF, 0xFF, 0x55] = Inr [0xF0, 0x0F, 0xFF] \<and>
   length [0x0F, 0xF0 :: byte] \<noteq> length [0xFF :: byte] \<and>
   xor_bytestrings [0x0F, 0xF0] [0xFF]
     = Inl (ValueError ''Only byte strings of equal length can be xored'')"
  using C4_xor_bytestrings [of "[0x0F, 0xF0, 0xAA]" "[0xFF, 0xFF, 0x55]"]
    C4_xor_bytestrings [of "[0x0F, 0xF0]" "[0xFF]"]
  by (simp add: xor_bytestrings_def)

text \<open>
  C10. For byte strings of equal length, xoring twice with the same second operand gives
  back the first operand, and the operands of \<open>xor_bytestrings\<close> can be exchanged.
\<close>

theorem C10_xor_involution_commutative:
  "length a = length b \<Longrightarrow>
     (\<exists>c. xor_bytestrings a b = Inr c \<and> xor_bytestrings c b = Inr a) \<and>
     xor_bytestrings a b = xor_bytestrings b a"
proof -
  assume len: "length a = length b"
  have "xor_bytestrings (map (\<lambda>(b1, b2). b1 XOR b2) (zip a b)) b = Inr a"
    using len by (simp add: xor_bytestrings_def xor_zip_cancel)
  moreover have "xor_bytestrings a b = Inr (map (\<lambda>(b1, b2). b1 XOR b2) (zip a b))"
    using len by (simp add: xor_bytestrings_def)
  moreover have "xor_bytestrings b a = Inr (map (\<lambda>(b1, b2). b1 XOR b2) (zip b a))"
    using len by (simp add: xor_bytestrings_def)
  ultimately show ?thesis
    using xor_zip_commute [of a b] by simp
qed

theorem C10_witness:
  "length [0x0F, 0xF0, 0xAA :: byte] = length [0xFF, 0xFF, 0x55 :: byte] \<and>
   (\<exists>c. xor_bytestrings [0x0F, 0xF0, 0xAA] [0xFF, 0xFF, 0x55] = Inr c \<and>
        xor_bytestrings c [0xFF, 0xFF, 0x55] = Inr [0x0F, 0xF0, 0xAA]) \<and>
   xor_bytestrings [0x0F, 0xF0, 0xAA] [0xFF, 0xFF, 0x55]
     = xor_bytestrings [0xFF, 0xFF, 0x55] [0x0F, 0xF0, 0xAA]"
proof -
  have l: "length [0x0F, 0xF0, 0xAA :: byte] = length [0xFF, 0xFF, 0x55 :: byte]" by simp
  from C10_xor_involution_commutative [OF l] l show ?thesis by blast
qed

section \<open>Properties of the file name functions\<close>

lemma rfind_notin: "c \<notin> set p \<Longrightarrow> rfind p c = -1"
  by (induction p) (auto simp: Let_def)

lemma rfind_lower: "-1 \<le> rfind p c"
  by (induction p) (auto simp: Let_def)

lemma rfind_last: "c \<notin> set b \<Longrightarrow> rfind (a @ c # b) c = int (length a)"
  by (induction a) (auto simp: Let_def rfind_notin)

lemma splitext_loop_scan:
  "splitext_loop (pre @ mid @ rest) (length pre) (length pre + length mid) =
     (if \<exists>c \<in> set mid. c \<noteq> CHR ''.'' then (pre @ mid, rest) else (pre @ mid @ rest, []))"
proof (induction mid arbitrary: pre)
  case Nil
  show ?case by (subst splitext_loop.simps) simp
next
  case (Cons x mid)
  show ?case
  proof (cases "x = CHR ''.''")
    case True
    have "splitext_loop (pre @ (x # mid) @ rest) (length pre) (length pre + length (x # mid))
        = splitext_loop ((pre @ [x]) @ mid @ rest) (length (pre @ [x])) (length (pre @ [x]) + length mid)"
      using True by (subst splitext_loop.simps) simp
    also note Cons.IH [of "pre @ [x]"]
    finally show ?thesis using True by simp
  next
    case False
    then show ?thesis by (subst splitext_loop.simps) auto
  qed
qed

lemma takeWhile_neq_stop:
  "c \<notin> set xs \<Longrightarrow> takeWhile (\<lambda>x. x \<noteq> c) (xs @ c # ys) = xs"
  by (induction xs) auto

lemma takeWhile_neq_all: "c \<notin> set xs \<Longrightarrow> takeWhile (\<lambda>x. x \<noteq> c) xs = xs"
  by (induction xs) auto

lemma dropWhile_neq_stop:
  "c \<notin> set xs \<Longrightarrow> dropWhile (\<lambda>x. x \<noteq> c) (xs @ c # ys) = c # ys"
  by (induction xs) auto

lemma last_dot_suffix_split:
  "CHR ''.'' \<notin> set e \<Longrightarrow> last_dot_suffix (root @ CHR ''.'' # e) = CHR ''.'' # e"
  by (simp add: last_dot_suffix_def takeWhile_neq_stop)

lemma stem_split_no_sep:
  "CHR ''.'' \<notin> set e \<Longrightarrow> CHR ''/'' \<notin> set st \<Longrightarrow>
     stem_before_last_dot (st @ CHR ''.'' # e) = st"
  by (simp add: stem_before_last_dot_def dropWhile_neq_stop takeWhile_neq_all)

lemma stem_split_sep:
  "CHR ''.'' \<notin> set e \<Longrightarrow> CHR ''/'' \<notin> set st \<Longrightarrow>
     stem_before_last_dot (d @ CHR ''/'' # st @ CHR ''.'' # e) = st"
  by (simp add: stem_before_last_dot_def dropWhile_neq_stop takeWhile_neq_stop)

lemma get_file_ext_no_dot: "CHR ''.'' \<notin> set name \<Longrightarrow> get_file_ext name = []"
  using rfind_lower [of name "CHR ''/''"]
  by (simp add: get_file_ext_def splitext_def rfind_notin Let_def)

lemma get_file_ext_sep_after_dot:
  assumes "CHR ''.'' \<notin> set e" "CHR ''/'' \<in> set e"
  shows "get_file_ext (root @ CHR ''.'' # e) = []"
proof -
  from assms(2) obtain e1 e2 where e: "e = e1 @ CHR ''/'' # e2" "CHR ''/'' \<notin> set e2"
    by (auto dest: split_list_last)
  have "rfind (root @ CHR ''.'' # e) CHR ''/'' = int (length (root @ CHR ''.'' # e1))"
    using rfind_last [OF e(2), of "root @ CHR ''.'' # e1"] e(1) by simp
  moreover have "rfind (root @ CHR ''.'' # e) CHR ''.'' = int (length root)"
    using assms(1) by (rule rfind_last)
  ultimately show ?thesis
    by (simp add: get_file_ext_def splitext_def Let_def)
qed

lemma get_file_ext_no_sep:
  assumes "CHR ''.'' \<notin> set e" "CHR ''/'' \<notin> set e" "CHR ''/'' \<notin> set st"
  shows "get_file_ext (st @ CHR ''.'' # e) =
           (if \<exists>c \<in> set st. c \<noteq> CHR ''.'' then CHR ''.'' # e else [])"
proof -
  have "rfind (st @ CHR ''.'' # e) CHR ''/'' = -1"
    using assms(2,3) by (simp add: rfind_notin)
  moreover have "rfind (st @ CHR ''.'' # e) CHR ''.'' = int (length st)"
    using assms(1) by (rule rfind_last)
  moreover note splitext_loop_scan [of "[]" st "CHR ''.'' # e"]
  ultimately show ?thesis
    by (simp add: get_file_ext_def splitext_def Let_def)
qed

lemma get_file_ext_sep:
  assumes "CHR ''.'' \<notin> set e" "CHR ''/'' \<notin> set e" "CHR ''/'' \<notin> set st"
  shows "get_file_ext (d @ CHR ''/'' # st @ CHR ''.'' # e) =
           (if \<exists>c \<in> set st. c \<noteq> CHR ''.'' then CHR ''.'' # e else [])"
proof -
  have "rfind (d @ CHR ''/'' # st @ CHR ''.'' # e) CHR ''/'' = int (length d)"
    using assms(2,3) by (intro rfind_last) simp
  moreover have "rfind (d @ CHR ''/'' # st @ CHR ''.'' # e) CHR ''.'' = int (length (d @ CHR ''/'' # st))"
    using rfind_last [OF assms(1), of "d @ CHR ''/'' # st"] by simp
  moreover note splitext_loop_scan [of "d @ [CHR ''/'']" st "CHR ''.'' # e"]
  ultimately show ?thesis
    by (simp add: get_file_ext_def splitext_def Let_def nat_add_distrib)
qed

text \<open>
  C7, as stated: \<open>get_file_ext\<close> returns the suffix of the name from its last dot on, or
  the empty string when there is none. It fails for a name whose last path component
  starts with its only dots, and for a name with a \<open>/\<close> after its last dot: there
  \<open>splitext\<close> gives an empty extension by design.
\<close>

theorem C7_counterexample:
  "get_file_ext ''.bashrc'' = [] \<and> last_dot_suffix ''.bashrc'' = ''.bashrc'' \<and>
   get_file_ext ''a.b/c'' = [] \<and> last_dot_suffix ''a.b/c'' = ''.b/c''"
  by (simp add: get_file_ext_def splitext_def last_dot_suffix_def Let_def)

text \<open>
  C7, amended: \<open>get_file_ext\<close> returns the suffix of the name that starts at its last
  dot when no \<open>/\<close> follows that dot and the stem, the characters between that dot and
  the \<open>/\<close> before it (or the start of the name), has a character other than a dot; in
  every other case it returns the empty string.
\<close>

theorem C7_get_file_ext_amended:
  "get_file_ext name =
     (if CHR ''.'' \<in> set name \<and> CHR ''/'' \<notin> set (last_dot_suffix name) \<and>
         (\<exists>c \<in> set (stem_before_last_dot name). c \<noteq> CHR ''.'')
      then last_dot_suffix name else [])"
proof (cases "CHR ''.'' \<in> set name")
  case False
  then show ?thesis by (simp add: get_file_ext_no_dot)
next
  case True
  then obtain root e where name: "name = root @ CHR ''.'' # e" and e: "CHR ''.'' \<notin> set e"
    by (auto dest: split_list_last)
  show ?thesis
  proof (cases "CHR ''/'' \<in> set e")
    case True
    with e name show ?thesis
      by (simp add: get_file_ext_sep_after_dot last_dot_suffix_split)
  next
    case no_sep: False
    show ?thesis
    proof (cases "CHR ''/'' \<in> set root")
      case False
      with e no_sep name show ?thesis
        by (simp add: get_file_ext_no_sep last_dot_suffix_split stem_split_no_sep)
    next
      case True
      then obtain d st where root: "root = d @ CHR ''/'' # st" and st: "CHR ''/'' \<notin> set st"
        by (auto dest: split_list_last)
      have "last_dot_suffix name = CHR ''.'' # e"
        unfolding name using e by (rule last_dot_suffix_split)
      moreover have "stem_before_last_dot name = st"
        unfolding name root using stem_split_sep [OF e st, of d] by simp
      moreover have "get_file_ext name = (if \<exists>c \<in> set st. c \<noteq> CHR ''.'' then CHR ''.'' # e else [])"
        unfolding name root using get_file_ext_sep [OF e no_sep st, of d] by simp
      ultimately show ?thesis using no_sep \<open>CHR ''.'' \<in> set name\<close> by simp
    qed
  qed
qed

theorem C7_witness:
  "last_dot_suffix ''music/.cache/song.tar.gz'' = ''.gz'' \<and>
   stem_before_last_dot ''music/.cache/song.tar.gz'' = ''song.tar'' \<and>
   get_file_ext ''music/.cache/song.tar.gz'' = ''.gz''"
  using C7_get_file_ext_amended [of "''music/.cache/song.tar.gz''"]
  by (simp add: last_dot_suffix_def stem_before_last_dot_def)

lemma any_pattern_matches_iff:
  "any_pattern_matches name patterns \<longleftrightarrow> (\<exists>pattern \<in> set patterns. fnmatch name pattern)"
  by (induction patterns) auto

lemma first_scheme_match_find:
  "first_scheme_match schemes name =
     map_option fst (find (\<lambda>(enctype, patterns). \<exists>pattern \<in> set patterns. fnmatch name pattern) schemes)"
  by (induction schemes name rule: first_scheme_match.induct)
     (simp_all add: any_pattern_matches_iff)

lemma tokens_match_Star:
  "tokens_match (Star # ts) name \<longleftrightarrow> (\<exists>s. suffix s name \<and> tokens_match ts s)"
proof (induction name)
  case Nil
  then show ?case by simp
next
  case (Cons c cs)
  show ?case
  proof
    assume "tokens_match (Star # ts) (c # cs)"
    then consider "tokens_match ts (c # cs)" | "tokens_match (Star # ts) cs" by auto
    then show "\<exists>s. suffix s (c # cs) \<and> tokens_match ts s"
    proof cases
      case 1
      then show ?thesis by blast
    next
      case 2
      with Cons.IH obtain s where "suffix s cs" "tokens_match ts s" by blast
      then show ?thesis by (blast intro: suffix_ConsI)
    qed
  next
    assume "\<exists>s. suffix s (c # cs) \<and> tokens_match ts s"
    then obtain s where s: "suffix s (c # cs)" "tokens_match ts s" by blast
    from s(1) have "s = c # cs \<or> suffix s cs" by (simp add: suffix_Cons)
    with s(2) Cons.IH show "tokens_match (Star # ts) (c # cs)" by auto
  qed
qed

lemma tokens_match_Literals:
  "tokens_match (map Literal lit) s \<longleftrightarrow> s = lit"
proof (induction lit arbitrary: s)
  case Nil
  then show ?case by simp
next
  case (Cons x lit)
  then show ?case by (cases s) auto
qed

lemma fnmatch_ncm: "fnmatch name ''*.ncm'' \<longleftrightarrow> suffix ''.ncm'' name"
proof -
  have "translate ''*.ncm'' = Star # map Literal ''.ncm''" by simp
  then show ?thesis
    by (simp only: fnmatch_def normcase_def tokens_match_Star tokens_match_Literals) auto
qed

text \<open>
  C5. \<open>get_encryption_format\<close> gives \<open>qmc\<close> for \<open>song.qmc3\<close>, \<open>ncm\<close> for
  \<open>track.ncm\<close>, nothing for \<open>plain.mp3\<close> and \<open>qmc\<close> for \<open>a.mflac0\<close>, which
  matches \<open>*.mflac[0]\<close> and not \<open>*.mflac\<close>. For every name the result is the first
  scheme, in the order of the table, one of whose patterns matches the name, and a pattern
  must match the whole name: \<open>*.ncm\<close> matches exactly the names that end with
  \<open>.ncm\<close>.
\<close>

theorem C5_get_encryption_format:
  "get_encryption_format ''song.qmc3'' = Some ''qmc'' \<and>
   get_encryption_format ''track.ncm'' = Some ''ncm'' \<and>
   get_encryption_format ''plain.mp3'' = None \<and>
   fnmatch ''a.mflac0'' ''*.mflac[0]'' \<and> \<not> fnmatch ''a.mflac0'' ''*.mflac'' \<and>
   get_encryption_format ''a.mflac0'' = Some ''qmc'' \<and>
   get_encryption_format name =
     map_option fst
       (find (\<lambda>(enctype, patterns). \<exists>pattern \<in> set patterns. fnmatch name pattern)
          SUPPORTED_FORMATS_PATTERNS) \<and>
   (fnmatch name ''*.ncm'' \<longleftrightarrow> suffix ''.ncm'' name) \<and>
   get_encryption_format ''track.ncm.bak'' = None"
proof -
  note defs = get_encryption_format_def SUPPORTED_FORMATS_PATTERNS_def fnmatch_def
      normcase_def class_end_def char_class_def startswith_def
  have "get_encryption_format ''song.qmc3'' = Some ''qmc''" by (simp add: defs)
  moreover have "get_encryption_format ''track.ncm'' = Some ''ncm''" by (simp add: defs)
  moreover have "get_encryption_format ''plain.mp3'' = None" by (simp add: defs)
  moreover have "fnmatch ''a.mflac0'' ''*.mflac[0]''" by (simp add: defs)
  moreover have "\<not> fnmatch ''a.mflac0'' ''*.mflac''" by (simp add: defs)
  moreover have "get_encryption_format ''a.mflac0'' = Some ''qmc''" by (simp add: defs)
  moreover have "get_encryption_format ''track.ncm.bak'' = None" by (simp add: defs)
  moreover have "get_encryption_format name =
     map_option fst
       (find (\<lambda>(enctype, patterns). \<exists>pattern \<in> set patterns. fnmatch name pattern)
          SUPPORTED_FORMATS_PATTERNS)"
    unfolding get_encryption_format_def by (rule first_scheme_match_find)
  ultimately show ?thesis using fnmatch_ncm [of name] by blast
qed

theorem C5_witness:
  "suffix ''.ncm'' ''a.qmc0.ncm'' \<and> fnmatch ''a.qmc0.ncm'' ''*.ncm'' \<and>
   get_encryption_format ''a.qmc0.ncm'' = Some ''ncm''"
proof -
  have s: "suffix ''.ncm'' ''a.qmc0.ncm''"
    by (simp add: suffix_def)
  with C5_get_encryption_format [of "''a.qmc0.ncm''"]
  have m: "fnmatch ''a.qmc0.ncm'' ''*.ncm''" by blast
  from C5_get_encryption_format [of "''a.qmc0.ncm''"]
  have "get_encryption_format ''a.qmc0.ncm'' =
     map_option fst
       (find (\<lambda>(enctype, patterns). \<exists>pattern \<in> set patterns. fnmatch ''a.qmc0.ncm'' pattern)
          SUPPORTED_FORMATS_PATTERNS)"
    by blast
  with m have "get_encryption_format ''a.qmc0.ncm'' = Some ''ncm''"
    by (simp add: SUPPORTED_FORMATS_PATTERNS_def)
  with s m show ?thesis by blast
qed

section \<open>Properties of the validation of file objects\<close>




















lemma check_readable_state:
  assumes "\<And>rd t. read_attr f = Some rd \<Longrightarrow> snd (rd 0 t) = t"
  shows "snd (check_readable f s) = s"
proof (cases "read_attr f")
  case None
  then show ?thesis by (simp add: check_readable_def)
next
  case (Some rd)
  with assms [of rd s] show ?thesis
    by (cases "rd 0 s") (simp add: check_readable_def split: outcome.splits)
qed

lemma check_writable_state:
  assumes "\<And>wr t. write_attr f = Some wr \<Longrightarrow> snd (wr [] t) = t"
  shows "snd (check_writable f s) = s"
proof (cases "write_attr f")
  case None
  then show ?thesis by (simp add: check_writable_def)
next
  case (Some wr)
  with assms [of wr s] show ?thesis
    by (cases "wr [] s") (simp add: check_writable_def split: outcome.splits)
qed

lemma validate_effect:
  assumes rd: "\<And>rd t. read_attr f = Some rd \<Longrightarrow> snd (rd 0 t) = t"
    and wr: "\<And>wr t. write_attr f = Some wr \<Longrightarrow> snd (wr [] t) = t"
    and rok: "readable \<Longrightarrow> fst (check_readable f s) = Inr ()"
    and sk: "seek_attr f = Some seek" "fst (seek 0 SEEK_END s) = Returned p"
  shows "snd (raise_while_not_fileobj f s readable True writable) = snd (seek 0 SEEK_END s)"
proof -
  have "snd (check_readable f s) = s"
    by (rule check_readable_state) (rule rd)
  with rok have c1: "(if readable then check_readable f s else (Inr (), s)) = (Inr (), s)"
    by (cases "check_readable f s") auto
  have c2: "check_seekable f s = (Inr (), snd (seek 0 SEEK_END s))"
    using sk by (cases "seek 0 SEEK_END s") (simp add: check_seekable_def)
  have "snd (check_writable f t) = t" for t
    by (rule check_writable_state) (rule wr)
  then have c3: "snd (if writable then check_writable f t else (Inr (), t)) = t" for t
    by simp
  show ?thesis
    unfolding raise_while_not_fileobj_def c1 using c3 [of "snd (seek 0 SEEK_END s)"]
    by (simp add: c2)
qed

lemma bytesio_validate_seek:
  "raise_while_not_fileobj BytesIO b readable True writable = (Inr (), b\<lparr>pos := length (buf b)\<rparr>)"
  by (simp add: raise_while_not_fileobj_def check_readable_def check_seekable_def
      check_writable_def BytesIO_def bytesio_read_def bytesio_seek_def bytesio_write_def SEEK_END_def)

lemma bytesio_validate_noseek:
  "raise_while_not_fileobj BytesIO b readable False writable = (Inr (), b)"
  by (simp add: raise_while_not_fileobj_def check_readable_def check_seekable_def
      check_writable_def BytesIO_def bytesio_read_def bytesio_seek_def bytesio_write_def SEEK_END_def)

text \<open>
  C8. For a file object whose zero-length read and empty write leave its state as it is,
  once the read check has passed (or is disabled) and the seek to the end has returned,
  the state that the validation leaves is the one the seek produced, whatever the write
  check does: nothing moves the cursor back. For the in-memory stream the validation with
  the seek check leaves the cursor at the length of the buffer and the buffer as it was,
  and without the seek check it leaves the stream as it was.
\<close>

theorem C8_seek_probe_leaves_cursor_at_end:
  "((\<forall>rd t. read_attr f = Some rd \<longrightarrow> snd (rd 0 t) = t) \<and>
    (\<forall>wr t. write_attr f = Some wr \<longrightarrow> snd (wr [] t) = t) \<and>
    (readable \<longrightarrow> fst (check_readable f s) = Inr ()) \<and>
    seek_attr f = Some seek \<and> fst (seek 0 SEEK_END s) = Returned p
    \<longrightarrow> snd (raise_while_not_fileobj f s readable True writable) = snd (seek 0 SEEK_END s)) \<and>
   raise_while_not_fileobj BytesIO b readable True writable
     = (Inr (), b\<lparr>pos := length (buf b)\<rparr>) \<and>
   raise_while_not_fileobj BytesIO b readable False writable = (Inr (), b)"
  using validate_effect [of f readable s seek p writable]
    bytesio_validate_seek bytesio_validate_noseek
  by blast

theorem C8_witness:
  "(\<forall>t. snd (bytesio_read 0 t) = t) \<and> (\<forall>t. snd (bytesio_write [] t) = t) \<and>
   fst (check_readable BytesIO \<lparr>buf = [1, 2, 3], pos = 1\<rparr>) = Inr () \<and>
   bytesio_seek 0 SEEK_END \<lparr>buf = [1, 2, 3], pos = 1\<rparr> = (Returned 3, \<lparr>buf = [1, 2, 3], pos = 3\<rparr>) \<and>
   snd (raise_while_not_fileobj BytesIO \<lparr>buf = [1, 2, 3], pos = 1\<rparr> True True False)
     = \<lparr>buf = [1, 2, 3], pos = 3\<rparr>"
proof -
  let ?b = "\<lparr>buf = [1, 2, 3], pos = 1\<rparr>"
  have rd: "\<forall>rd t. read_attr BytesIO = Some rd \<longrightarrow> snd (rd 0 t) = t"
    by (simp add: BytesIO_def bytesio_read_def)
  have wr: "\<forall>wr t. write_attr BytesIO = Some wr \<longrightarrow> snd (wr [] t) = t"
    by (simp add: BytesIO_def bytesio_write_def)
  have rok: "fst (check_readable BytesIO ?b) = Inr ()"
    by (simp add: check_readable_def BytesIO_def bytesio_read_def)
  have sk: "seek_attr BytesIO = Some bytesio_seek" by (simp add: BytesIO_def)
  have sr: "bytesio_seek 0 SEEK_END ?b = (Returned 3, \<lparr>buf = [1, 2, 3], pos = 3\<rparr>)"
    by (simp add: bytesio_seek_def SEEK_END_def)
  then have sr': "fst (bytesio_seek 0 SEEK_END ?b) = Returned 3" by simp
  from rd wr rok sk sr'
    C8_seek_probe_leaves_cursor_at_end [of BytesIO True ?b bytesio_seek 3 False]
  have "snd (raise_while_not_fileobj BytesIO ?b True True False) = snd (bytesio_seek 0 SEEK_END ?b)"
    by blast
  with sr have "snd (raise_while_not_fileobj BytesIO ?b True True False) = \<lparr>buf = [1, 2, 3], pos = 3\<rparr>"
    by simp
  moreover have "\<forall>t. snd (bytesio_read 0 t) = t" by (simp add: bytesio_read_def)
  moreover have "\<forall>t. snd (bytesio_write [] t) = t" by (simp add: bytesio_write_def)
  ultimately show ?thesis using rok sr by blast
qed

end
